theory Spec2Isabelle
  imports Complex_Main
begin

section \<open>Data model of \<open>quadtree_builder.py\<close>\<close>

text \<open>
  Coordinates are Python floats in the source. They are modelled as real numbers: every
  statement below is about the arithmetic the code denotes, not about rounding.
  Counts and depths are Python integers; \<open>poiCount\<close> and \<open>max_per_node\<close> are \<open>int\<close>
  (the latter may be negative), the recursion depth starts at 0 and only grows, so it is
  a \<open>nat\<close>.
\<close>

definition MAX_DEPTH :: nat where
  "MAX_DEPTH = 6"

definition MAX_PER_NODE :: int where
  "MAX_PER_NODE = 25"

text \<open>The dataclass \<open>Quad\<close>: a bounding box given by its four edges.\<close>

record Quad =
  south :: real
  west :: real
  north :: real
  east :: real

text \<open>
  A feature is a dictionary with \<open>feature["geometry"]["coordinates"] = [lon, lat]\<close> and
  further entries the builder never reads; they are kept as an opaque list of pairs.
\<close>

record feature =
  lon :: real
  lat :: real
  tags :: "(string \<times> string) list"

text \<open>
  The class \<open>QuadtreeNode\<close> with the five attributes that \<open>__init__\<close> creates. The
  tree owns its children exclusively, so a node is a value and the in-place updates of
  the source return the updated node.
\<close>

datatype QuadtreeNode =
  QuadtreeNode (bbox: Quad) (data: "feature list") (children: "QuadtreeNode list")
    (poiCount: int) (averagePosition: "(real \<times> real) option")

text \<open>
  Reading an attribute that was never set on an object raises \<open>AttributeError\<close>; it is
  the only exception the functions modelled here can raise.
\<close>

datatype error = AttributeError

section \<open>Bounding boxes\<close>

definition subdivide_into_quadrants :: "Quad \<Rightarrow> Quad list" where
  "subdivide_into_quadrants b =
     (let mid_lat = (south b + north b) / 2;
          mid_lon = (west b + east b) / 2
      in [\<lparr>south = south b, west = west b, north = mid_lat, east = mid_lon\<rparr>,
          \<lparr>south = south b, west = mid_lon, north = mid_lat, east = east b\<rparr>,
          \<lparr>south = mid_lat, west = west b, north = north b, east = mid_lon\<rparr>,
          \<lparr>south = mid_lat, west = mid_lon, north = north b, east = east b\<rparr>])"

definition contains_feature :: "Quad \<Rightarrow> feature \<Rightarrow> bool" where
  "contains_feature b f =
     ((south b \<le> lat f \<and> lat f \<le> north b) \<and> (west b \<le> lon f \<and> lon f \<le> east b))"

section \<open>The aggregation pass\<close>

text \<open>
  One round of the loop over the children of an internal node: a child is added to the
  running \<open>(total, sum_lon, sum_lat)\<close> (here \<open>tot\<close>) when its \<open>averagePosition\<close> is
  set (a pair is truthy, \<open>None\<close> is not) and its \<open>poiCount\<close> is positive.
\<close>

definition accumulate :: "QuadtreeNode \<Rightarrow> int \<times> real \<times> real \<Rightarrow> int \<times> real \<times> real" where
  "accumulate c acc =
     (case acc of (tot, sum_lon, sum_lat) \<Rightarrow>
        (case averagePosition c of
           None \<Rightarrow> acc
         | Some (lo, la) \<Rightarrow>
             if poiCount c > 0
             then (tot + poiCount c,
                   sum_lon + lo * of_int (poiCount c),
                   sum_lat + la * of_int (poiCount c))
             else acc))"

text \<open>
  The part of \<open>_compute_average_position\<close> that follows the recursion into the children:
  what the node computes for itself from its data (a leaf) or from its children (an
  internal node). Both divisions of the source stand under the guards \<open>n > 0\<close> and
  \<open>total > 0\<close>, which are kept here, so no division by zero is reachable. A leaf without
  features keeps the \<open>poiCount\<close> and the \<open>averagePosition\<close> it had; an internal node
  with total 0 keeps its \<open>averagePosition\<close>.
\<close>

definition own_average_position :: "QuadtreeNode \<Rightarrow> QuadtreeNode" where
  "own_average_position node =
     (if children node = []
      then (let n = length (data node)
            in if n > 0
               then QuadtreeNode (bbox node) (data node) (children node) (int n)
                      (Some (sum_list (map lon (data node)) / of_nat n,
                             sum_list (map lat (data node)) / of_nat n))
               else node)
      else (case fold accumulate (children node) (0, 0, 0) of (tot, sum_lon, sum_lat) \<Rightarrow>
              QuadtreeNode (bbox node) (data node) (children node) tot
                (if tot > 0 then Some (sum_lon / of_int tot, sum_lat / of_int tot)
                 else averagePosition node)))"

text \<open>\<open>_compute_average_position\<close>: the children first, then the node itself.\<close>

fun compute_average_position :: "QuadtreeNode \<Rightarrow> QuadtreeNode" where
  "compute_average_position (QuadtreeNode b d cs pc ap) =
     own_average_position (QuadtreeNode b d (map compute_average_position cs) pc ap)"

section \<open>Building the tree\<close>

text \<open>
  The inner function \<open>_build\<close> of \<open>build_quadtree_for_category\<close>, with the captured
  \<open>max_per_node\<close> as its first argument. The node starts as \<open>QuadtreeNode(box)\<close>
  (no children, \<open>poiCount = 0\<close>, \<open>averagePosition = None\<close>) with \<open>data = feats\<close>; one
  child is appended for every quadrant whose bucket is not empty, in the order of the
  quadrants; the data is cleared when a child was added.
\<close>

function build :: "int \<Rightarrow> feature list \<Rightarrow> Quad \<Rightarrow> nat \<Rightarrow> QuadtreeNode" where
  "build max_per_node feats box depth =
     (if depth \<ge> MAX_DEPTH \<or> int (length feats) \<le> max_per_node
      then compute_average_position (QuadtreeNode box feats [] 0 None)
      else (let cs = concat (map (\<lambda>sub_box.
                        (let bucket = filter (contains_feature sub_box) feats
                         in if bucket \<noteq> []
                            then [build max_per_node bucket sub_box (depth + 1)]
                            else []))
                      (subdivide_into_quadrants box))
            in compute_average_position
                 (QuadtreeNode box (if cs \<noteq> [] then [] else feats) cs 0 None)))"
  by pat_completeness auto
termination
  by (relation "measure (\<lambda>(m, fs, b, d). MAX_DEPTH - d)") auto

declare build.simps [simp del]

definition build_quadtree_for_category :: "feature list \<Rightarrow> Quad \<Rightarrow> int \<Rightarrow> QuadtreeNode" where
  "build_quadtree_for_category features box max_per_node = build max_per_node features box 0"

section \<open>Per-depth statistics\<close>

text \<open>
  The dictionary that \<open>compute_depth_stats\<close> keeps for each depth while it runs.
\<close>

record depth_entry =
  nodeCount :: int
  totalPois :: int
  sumChunkKm :: real

text \<open>
  \<open>node.chunkSizeKm\<close>: the class \<open>QuadtreeNode\<close> sets \<open>bbox\<close>, \<open>data\<close>, \<open>children\<close>,
  \<open>poiCount\<close> and \<open>averagePosition\<close> only, and nothing in the repository assigns
  \<open>chunkSizeKm\<close> to a node, so the read raises \<open>AttributeError\<close> for every node.
\<close>

definition chunkSizeKm :: "QuadtreeNode \<Rightarrow> error + real" where
  "chunkSizeKm node = Inl AttributeError"

text \<open>
  The \<open>while queue\<close> loop: the queue is a list, \<open>pop(0)\<close> takes its head and the children
  are appended at its end with \<open>depth + 1\<close>.
\<close>

function stats_loop ::
  "(nat \<rightharpoonup> depth_entry) \<Rightarrow> (QuadtreeNode \<times> nat) list \<Rightarrow> error + (nat \<rightharpoonup> depth_entry)" where
  "stats_loop stats [] = Inr stats"
| "stats_loop stats ((node, depth) # queue) =
     (let entry = (case stats depth of
                     None \<Rightarrow> \<lparr>nodeCount = 0, totalPois = 0, sumChunkKm = 0\<rparr>
                   | Some e \<Rightarrow> e);
          entry1 = entry\<lparr>nodeCount := nodeCount entry + 1,
                         totalPois := totalPois entry + poiCount node\<rparr>
      in case chunkSizeKm node of
           Inl e \<Rightarrow> Inl e
         | Inr km \<Rightarrow>
             stats_loop (stats(depth \<mapsto> entry1\<lparr>sumChunkKm := sumChunkKm entry1 + km\<rparr>))
               (queue @ map (\<lambda>c. (c, depth + 1)) (children node)))"
  by pat_completeness auto
termination
proof (relation "measure (\<lambda>(stats, queue). sum_list (map (\<lambda>(n, d). size n) queue))")
  show "wf (measure (\<lambda>(stats, queue). sum_list (map (\<lambda>(n, d). size n) queue)))"
    by simp
next
  fix stats :: "nat \<rightharpoonup> depth_entry" and node :: QuadtreeNode and depth :: nat
    and queue :: "(QuadtreeNode \<times> nat) list" and x xa
    and km :: real
  have children_size: "sum_list (map size (children node)) < size node"
    by (cases node) (simp add: size_list_conv_sum_list)
  have "sum_list (map (\<lambda>(n, d). size n) (map (\<lambda>c. (c, depth + 1)) (children node)))
          = sum_list (map size (children node))"
    by (simp add: comp_def)
  then show "((stats(depth \<mapsto> xa\<lparr>sumChunkKm := sumChunkKm xa + km\<rparr>),
               queue @ map (\<lambda>c. (c, depth + 1)) (children node)),
              (stats, (node, depth) # queue))
             \<in> measure (\<lambda>(stats, queue). sum_list (map (\<lambda>(n, d). size n) queue))"
    using children_size by simp
qed

text \<open>
  The finished entry of a depth: \<open>avgChunkKm\<close> replaces \<open>sumChunkKm\<close>. The result maps
  a depth to \<open>(nodeCount, totalPois, avgChunkKm)\<close>.
\<close>

definition finalize :: "depth_entry \<Rightarrow> int \<times> int \<times> real" where
  "finalize e =
     (nodeCount e, totalPois e,
      if nodeCount e \<noteq> 0 then sumChunkKm e / of_int (nodeCount e) else 0)"

definition compute_depth_stats :: "QuadtreeNode \<Rightarrow> error + (nat \<rightharpoonup> int \<times> int \<times> real)" where
  "compute_depth_stats root_node =
     (case stats_loop Map.empty [(root_node, 0)] of
        Inl e \<Rightarrow> Inl e
      | Inr stats \<Rightarrow> Inr (\<lambda>depth. map_option finalize (stats depth)))"

section \<open>Notions used to state the properties\<close>

text \<open>
  The children that \<open>_build\<close> appends to a node that it subdivides: one for every
  quadrant with a bucket that is not empty.
\<close>

definition build_children :: "int \<Rightarrow> feature list \<Rightarrow> Quad \<Rightarrow> nat \<Rightarrow> QuadtreeNode list" where
  "build_children max_per_node feats box depth =
     concat (map (\<lambda>sub_box.
                    (let bucket = filter (contains_feature sub_box) feats
                     in if bucket \<noteq> []
                        then [build max_per_node bucket sub_box (depth + 1)]
                        else []))
                 (subdivide_into_quadrants box))"

text \<open>All nodes of a tree with their depths, the root first, at the given depth.\<close>

fun nodes_at :: "nat \<Rightarrow> QuadtreeNode \<Rightarrow> (QuadtreeNode \<times> nat) list" where
  "nodes_at k (QuadtreeNode b d cs pc ap) =
     (QuadtreeNode b d cs pc ap, k) # concat (map (nodes_at (Suc k)) cs)"

definition nodes :: "QuadtreeNode \<Rightarrow> QuadtreeNode list" where
  "nodes t = map fst (nodes_at 0 t)"

text \<open>A node is a leaf when its list of children is empty (\<open>if not self.children\<close>).\<close>

definition is_leaf :: "QuadtreeNode \<Rightarrow> bool" where
  "is_leaf n = (children n = [])"

text \<open>The leaves of a tree, from left to right.\<close>

definition leaves :: "QuadtreeNode \<Rightarrow> QuadtreeNode list" where
  "leaves t = filter is_leaf (nodes t)"

text \<open>The features held by the leaves of a tree, from left to right.\<close>

fun leaf_features :: "QuadtreeNode \<Rightarrow> feature list" where
  "leaf_features (QuadtreeNode b d cs pc ap) =
     (if cs = [] then d else concat (map leaf_features cs))"

text \<open>
  The aggregation postcondition in the words of the specification. A leaf: the mean of
  the longitudes and of the latitudes of its own features, undefined without features.
\<close>

definition mean_position :: "feature list \<Rightarrow> (real \<times> real) option" where
  "mean_position fs =
     (if fs = [] then None
      else Some (sum_list (map lon fs) / of_nat (length fs),
                 sum_list (map lat fs) / of_nat (length fs)))"

text \<open>
  An internal node: the mean of the children's average positions weighted by their
  counts, where a child with count 0 contributes nothing, undefined when the total is 0.
\<close>

definition weighted_lon :: "QuadtreeNode \<Rightarrow> real" where
  "weighted_lon c =
     (if poiCount c = 0 then 0
      else case averagePosition c of None \<Rightarrow> 0 | Some (lo, la) \<Rightarrow> lo * of_int (poiCount c))"

definition weighted_lat :: "QuadtreeNode \<Rightarrow> real" where
  "weighted_lat c =
     (if poiCount c = 0 then 0
      else case averagePosition c of None \<Rightarrow> 0 | Some (lo, la) \<Rightarrow> la * of_int (poiCount c))"

definition weighted_mean :: "QuadtreeNode list \<Rightarrow> (real \<times> real) option" where
  "weighted_mean cs =
     (let n = sum_list (map poiCount cs)
      in if n = 0 then None
         else Some (sum_list (map weighted_lon cs) / of_int n,
                    sum_list (map weighted_lat cs) / of_int n))"

definition aggregation_post :: "QuadtreeNode \<Rightarrow> bool" where
  "aggregation_post n =
     (if is_leaf n
      then poiCount n = int (length (data n)) \<and> averagePosition n = mean_position (data n)
      else poiCount n = sum_list (map poiCount (children n))
           \<and> averagePosition n = weighted_mean (children n))"

text \<open>The area of a box.\<close>

definition area :: "Quad \<Rightarrow> real" where
  "area b = (north b - south b) * (east b - west b)"

text \<open>
  The box of the concrete scenarios of the specification, \<open>(south=0, west=0, north=4,
  east=4)\<close>, and a feature at a position \<open>(lon, lat)\<close> without further entries.
\<close>

definition box_0_4 :: Quad where
  "box_0_4 = \<lparr>south = 0, west = 0, north = 4, east = 4\<rparr>"

definition point :: "real \<Rightarrow> real \<Rightarrow> feature" where
  "point x y = \<lparr>lon = x, lat = y, tags = []\<rparr>"

section \<open>Basic facts about the model\<close>

lemma own_bbox: "bbox (own_average_position n) = bbox n"
  by (simp add: own_average_position_def Let_def split: prod.splits)

lemma own_data: "data (own_average_position n) = data n"
  by (simp add: own_average_position_def Let_def split: prod.splits)

lemma own_children: "children (own_average_position n) = children n"
  by (simp add: own_average_position_def Let_def split: prod.splits)

lemma own_idem: "own_average_position (own_average_position n) = own_average_position n"
  by (cases n) (simp add: own_average_position_def Let_def split: prod.splits)

lemma cap_bbox: "bbox (compute_average_position n) = bbox n"
  by (cases n) (simp add: own_bbox)

lemma cap_data: "data (compute_average_position n) = data n"
  by (cases n) (simp add: own_data)

lemma cap_children: "children (compute_average_position n) = map compute_average_position (children n)"
  by (cases n) (simp add: own_children)

lemma cap_unfold: "compute_average_position n =
   own_average_position (QuadtreeNode (bbox n) (data n) (map compute_average_position (children n)) (poiCount n) (averagePosition n))"
  by (cases n) simp

lemma cap_idem: "compute_average_position (compute_average_position n) = compute_average_position n"
proof (induction n)
  case (QuadtreeNode b d cs pc ap)
  let ?m = "QuadtreeNode b d (map compute_average_position cs) pc ap"
  have m: "map (compute_average_position \<circ> compute_average_position) cs = map compute_average_position cs"
    using QuadtreeNode.IH by simp
  have "compute_average_position (own_average_position ?m)
      = own_average_position (QuadtreeNode b d (map compute_average_position cs)
          (poiCount (own_average_position ?m)) (averagePosition (own_average_position ?m)))"
    by (subst cap_unfold) (simp add: own_bbox own_data own_children m)
  also have "\<dots> = own_average_position (own_average_position ?m)"
    by (rule arg_cong [where f = own_average_position])
       (metis QuadtreeNode.collapse QuadtreeNode.sel(1,2,3) own_bbox own_data own_children)
  finally show ?case
    by (simp add: own_idem)
qed

lemma cap_build: "compute_average_position (build m fs b d) = build m fs b d"
  by (subst (1 2) build.simps) (simp add: cap_idem Let_def del: compute_average_position.simps)

lemma build_empty: "build m [] b d = QuadtreeNode b [] [] 0 None"
  by (subst build.simps) (simp add: subdivide_into_quadrants_def Let_def own_average_position_def)


lemma coverage: "contains_feature b f \<Longrightarrow> \<exists>q\<in>set (subdivide_into_quadrants b). contains_feature q f"
  by (simp add: contains_feature_def subdivide_into_quadrants_def Let_def) argo

lemma quadrant_sub: "q \<in> set (subdivide_into_quadrants b) \<Longrightarrow> contains_feature q f \<Longrightarrow> contains_feature b f"
  by (auto simp: contains_feature_def subdivide_into_quadrants_def Let_def) 


lemma build_children_mem:
  "c \<in> set (build_children m fs b d) \<longleftrightarrow>
     (\<exists>q\<in>set (subdivide_into_quadrants b).
        filter (contains_feature q) fs \<noteq> [] \<and> c = build m (filter (contains_feature q) fs) q (d + 1))"
  by (auto simp: build_children_def Let_def split: if_splits)

lemma build_children_cap: "map compute_average_position (build_children m fs b d) = build_children m fs b d"
  by (rule map_idI) (auto simp: build_children_mem cap_build)

lemma build_children_length: "length (build_children m fs b d) \<le> 4"
  by (simp add: build_children_def subdivide_into_quadrants_def Let_def)

lemma build_children_Nil: "build_children m fs b d = [] \<longleftrightarrow> (\<forall>f\<in>set fs. \<not> contains_feature b f)"
proof
  assume e: "build_children m fs b d = []"
  show "\<forall>f\<in>set fs. \<not> contains_feature b f"
  proof
    fix f assume f: "f \<in> set fs"
    show "\<not> contains_feature b f"
    proof
      assume "contains_feature b f"
      then obtain q where q: "q \<in> set (subdivide_into_quadrants b)" "contains_feature q f"
        using coverage by blast
      with f have "filter (contains_feature q) fs \<noteq> []"
        by (auto simp: filter_empty_conv)
      with q have "build m (filter (contains_feature q) fs) q (d + 1) \<in> set (build_children m fs b d)"
        by (auto simp: build_children_mem)
      with e show False by simp
    qed
  qed
next
  assume a: "\<forall>f\<in>set fs. \<not> contains_feature b f"
  have "c \<notin> set (build_children m fs b d)" for c
  proof
    assume "c \<in> set (build_children m fs b d)"
    then obtain q where q: "q \<in> set (subdivide_into_quadrants b)" "filter (contains_feature q) fs \<noteq> []"
      unfolding build_children_mem by blast
    then obtain f where "f \<in> set fs" "contains_feature q f"
      by (auto simp: filter_empty_conv)
    with q a show False
      using quadrant_sub by blast
  qed
  then show "build_children m fs b d = []"
    by (cases "build_children m fs b d") auto
qed

lemma own_leaf:
  "own_average_position (QuadtreeNode b fs [] 0 None) = QuadtreeNode b fs [] (int (length fs)) (mean_position fs)"
  by (simp add: own_average_position_def mean_position_def Let_def)

lemma build_leaf:
  "MAX_DEPTH \<le> d \<or> int (length fs) \<le> m \<Longrightarrow>
   build m fs b d = QuadtreeNode b fs [] (int (length fs)) (mean_position fs)"
  by (subst build.simps) (simp add: own_leaf)

lemma build_split:
  assumes "\<not> (MAX_DEPTH \<le> d \<or> int (length fs) \<le> m)"
  shows "build m fs b d =
     own_average_position
       (QuadtreeNode b (if build_children m fs b d \<noteq> [] then [] else fs) (build_children m fs b d) 0 None)"
proof -
  have "build m fs b d =
     compute_average_position
       (QuadtreeNode b (if build_children m fs b d \<noteq> [] then [] else fs) (build_children m fs b d) 0 None)"
    by (subst build.simps) (simp only: assms if_False build_children_def Let_def)
  then show ?thesis
    by (simp add: build_children_cap)
qed

lemma build_stays_leaf:
  "\<forall>f\<in>set fs. \<not> contains_feature b f \<Longrightarrow>
   build m fs b d = QuadtreeNode b fs [] (int (length fs)) (mean_position fs)"
proof (cases "MAX_DEPTH \<le> d \<or> int (length fs) \<le> m")
  case True
  then show ?thesis by (rule build_leaf)
next
  case False
  assume "\<forall>f\<in>set fs. \<not> contains_feature b f"
  then have "build_children m fs b d = []"
    by (simp add: build_children_Nil)
  then show ?thesis
    by (simp add: build_split [OF False] own_leaf)
qed

section \<open>The shape of a built tree\<close>

lemma nodes_at_unfold: "nodes_at k t = (t, k) # concat (map (nodes_at (Suc k)) (children t))"
  by (cases t) simp

lemma leaf_features_unfold:
  "leaf_features t = (if children t = [] then data t else concat (map leaf_features (children t)))"
  by (cases t) simp

lemma build_children_of:
  "children (build m fs b d) =
     (if MAX_DEPTH \<le> d \<or> int (length fs) \<le> m then [] else build_children m fs b d)"
  by (simp add: build_leaf build_split own_children)

lemma build_data_of:
  "data (build m fs b d) = (if children (build m fs b d) = [] then fs else [])"
proof (cases "MAX_DEPTH \<le> d \<or> int (length fs) \<le> m")
  case True
  then show ?thesis by (simp add: build_leaf)
next
  case False
  show ?thesis
    by (simp add: build_split [OF False] own_children own_data)
qed

lemma build_bbox_of: "bbox (build m fs b d) = b"
  by (cases "MAX_DEPTH \<le> d \<or> int (length fs) \<le> m") (simp_all add: build_leaf build_split own_bbox)

lemma build_is_leaf:
  "children (build m fs b d) = [] \<longleftrightarrow>
     MAX_DEPTH \<le> d \<or> int (length fs) \<le> m \<or> (\<forall>f\<in>set fs. \<not> contains_feature b f)"
  by (simp add: build_children_of build_children_Nil)

lemma bucket_inside: "\<forall>f\<in>set (filter (contains_feature q) fs). contains_feature q f"
  by simp

lemma nodes_at_build:
  "(n, k) \<in> set (nodes_at d (build m fs b d)) \<Longrightarrow>
     (n = build m fs b d \<and> k = d) \<or>
     (\<exists>fs' b'. n = build m fs' b' k \<and> d < k \<and> k \<le> MAX_DEPTH \<and> fs' \<noteq> []
               \<and> (\<forall>f\<in>set fs'. contains_feature b' f))"
proof (induction m fs b d arbitrary: n k rule: build.induct)
  case (1 m fs b d)
  from "1.prems" consider "n = build m fs b d \<and> k = d"
    | c where "c \<in> set (children (build m fs b d))" "(n, k) \<in> set (nodes_at (Suc d) c)"
    by (subst (asm) nodes_at_unfold) auto
  then show ?case
  proof cases
    case 1
    then show ?thesis by simp
  next
    case 2
    then have split: "\<not> (MAX_DEPTH \<le> d \<or> int (length fs) \<le> m)"
      and c: "c \<in> set (build_children m fs b d)"
      by (auto simp: build_children_of split: if_splits)
    from c obtain q where q: "q \<in> set (subdivide_into_quadrants b)"
      "filter (contains_feature q) fs \<noteq> []"
      "c = build m (filter (contains_feature q) fs) q (d + 1)"
      unfolding build_children_mem by blast
    from "1.IH" [OF split q(1) refl q(2), of n k] 2(2) q(3)
    have "(n = c \<and> k = d + 1) \<or>
     (\<exists>fs' b'. n = build m fs' b' k \<and> d + 1 < k \<and> k \<le> MAX_DEPTH \<and> fs' \<noteq> []
               \<and> (\<forall>f\<in>set fs'. contains_feature b' f))"
      by simp
    then show ?thesis
    proof
      assume "n = c \<and> k = d + 1"
      with q split have "n = build m (filter (contains_feature q) fs) q k \<and> d < k \<and> k \<le> MAX_DEPTH
          \<and> filter (contains_feature q) fs \<noteq> []
          \<and> (\<forall>f\<in>set (filter (contains_feature q) fs). contains_feature q f)"
        by simp
      then show ?thesis by blast
    next
      assume "\<exists>fs' b'. n = build m fs' b' k \<and> d + 1 < k \<and> k \<le> MAX_DEPTH \<and> fs' \<noteq> []
               \<and> (\<forall>f\<in>set fs'. contains_feature b' f)"
      then obtain fs' b' where "n = build m fs' b' k \<and> d + 1 < k \<and> k \<le> MAX_DEPTH \<and> fs' \<noteq> []
               \<and> (\<forall>f\<in>set fs'. contains_feature b' f)"
        by blast
      then have "n = build m fs' b' k \<and> d < k \<and> k \<le> MAX_DEPTH \<and> fs' \<noteq> []
               \<and> (\<forall>f\<in>set fs'. contains_feature b' f)"
        by simp
      then show ?thesis by blast
    qed
  qed
qed

lemma fold_accumulate_counted:
  "\<forall>c\<in>set cs. 0 < poiCount c \<and> averagePosition c \<noteq> None \<Longrightarrow>
   fold accumulate cs (t, a, b) =
     (t + sum_list (map poiCount cs), a + sum_list (map weighted_lon cs), b + sum_list (map weighted_lat cs))"
proof (induction cs arbitrary: t a b)
  case Nil
  then show ?case by simp
next
  case (Cons c cs)
  from Cons.prems obtain lo la where ap: "averagePosition c = Some (lo, la)" and pos: "0 < poiCount c"
    by auto
  have "accumulate c (t, a, b) = (t + poiCount c, a + weighted_lon c, b + weighted_lat c)"
    using ap pos by (simp add: accumulate_def weighted_lon_def weighted_lat_def)
  with Cons show ?case
    by (simp add: add.assoc)
qed

lemma sum_list_pos:
  assumes "cs \<noteq> []" "\<forall>c\<in>set cs. 0 < poiCount c"
  shows "0 < sum_list (map poiCount cs)"
proof -
  have nonneg: "\<forall>c\<in>set xs. 0 < poiCount c \<Longrightarrow> 0 \<le> sum_list (map poiCount xs)" for xs
    by (induction xs) auto
  from assms obtain c cs' where cs: "cs = c # cs'"
    by (cases cs) auto
  with assms(2) have "0 < poiCount c" "0 \<le> sum_list (map poiCount cs')"
    using nonneg [of cs'] by auto
  with cs show ?thesis by simp
qed

lemma own_internal:
  assumes "cs \<noteq> []" "\<forall>c\<in>set cs. 0 < poiCount c \<and> averagePosition c \<noteq> None"
  shows "own_average_position (QuadtreeNode b d cs pc ap) =
           QuadtreeNode b d cs (sum_list (map poiCount cs)) (weighted_mean cs)"
proof -
  have "0 < sum_list (map poiCount cs)"
    using assms sum_list_pos by blast
  then show ?thesis
    using assms(1) fold_accumulate_counted [OF assms(2), of 0 0 0]
    by (simp add: own_average_position_def weighted_mean_def Let_def)
qed

lemma build_counted:
  "fs \<noteq> [] \<Longrightarrow> 0 < poiCount (build m fs b d) \<and> averagePosition (build m fs b d) \<noteq> None"
proof (induction m fs b d rule: build.induct)
  case (1 m fs b d)
  show ?case
  proof (cases "children (build m fs b d) = []")
    case True
    then have "build m fs b d = QuadtreeNode b fs [] (int (length fs)) (mean_position fs)"
      by (auto simp: build_is_leaf build_leaf build_stays_leaf)
    with "1.prems" show ?thesis
      by (simp add: mean_position_def)
  next
    case False
    then have split: "\<not> (MAX_DEPTH \<le> d \<or> int (length fs) \<le> m)"
      and ne: "build_children m fs b d \<noteq> []"
      by (auto simp: build_children_of split: if_splits)
    have kids: "\<forall>c\<in>set (build_children m fs b d). 0 < poiCount c \<and> averagePosition c \<noteq> None"
      using "1.IH" [OF split] by (auto simp: build_children_mem)
    have "build m fs b d = QuadtreeNode b [] (build_children m fs b d)
            (sum_list (map poiCount (build_children m fs b d))) (weighted_mean (build_children m fs b d))"
      using ne by (simp add: build_split [OF split] own_internal [OF ne kids])
    moreover have "0 < sum_list (map poiCount (build_children m fs b d))"
      using ne kids sum_list_pos by blast
    ultimately show ?thesis
      by (simp add: weighted_mean_def Let_def)
  qed
qed

lemma build_children_counted:
  "\<forall>c\<in>set (build_children m fs b d). 0 < poiCount c \<and> averagePosition c \<noteq> None"
proof
  fix c assume "c \<in> set (build_children m fs b d)"
  then obtain q where "filter (contains_feature q) fs \<noteq> []"
    "c = build m (filter (contains_feature q) fs) q (d + 1)"
    unfolding build_children_mem by blast
  then show "0 < poiCount c \<and> averagePosition c \<noteq> None"
    using build_counted by blast
qed

lemma build_internal:
  assumes "children (build m fs b d) \<noteq> []"
  shows "build m fs b d = QuadtreeNode b [] (build_children m fs b d)
            (sum_list (map poiCount (build_children m fs b d))) (weighted_mean (build_children m fs b d))"
proof -
  from assms have split: "\<not> (MAX_DEPTH \<le> d \<or> int (length fs) \<le> m)"
      and ne: "build_children m fs b d \<noteq> []"
    by (auto simp: build_children_of split: if_splits)
  show ?thesis
    using ne by (simp add: build_split [OF split] own_internal [OF ne build_children_counted])
qed

lemma build_external:
  assumes "children (build m fs b d) = []"
  shows "build m fs b d = QuadtreeNode b fs [] (int (length fs)) (mean_position fs)"
  using assms by (auto simp: build_is_leaf build_leaf build_stays_leaf)

lemma build_aggregation_post: "aggregation_post (build m fs b d)"
proof (cases "children (build m fs b d) = []")
  case True
  show ?thesis
    by (subst build_external [OF True]) (simp add: aggregation_post_def is_leaf_def)
next
  case False
  then have ne: "build_children m fs b d \<noteq> []"
    by (auto simp: build_children_of split: if_splits)
  show ?thesis
    using ne by (subst build_internal [OF False]) (simp add: aggregation_post_def is_leaf_def)
qed

lemma node_is_build:
  assumes "n \<in> set (nodes (build m fs b 0))"
  shows "\<exists>fs' b' k. n = build m fs' b' k"
proof -
  from assms obtain k where "(n, k) \<in> set (nodes_at 0 (build m fs b 0))"
    by (auto simp: nodes_def)
  from nodes_at_build [OF this] show ?thesis by blast
qed

lemma sum_list_count:
  "\<forall>c\<in>set cs. poiCount c = int (length (leaf_features c)) \<Longrightarrow>
   sum_list (map poiCount cs) = int (length (concat (map leaf_features cs)))"
  by (induction cs) auto

lemma build_count: "poiCount (build m fs b d) = int (length (leaf_features (build m fs b d)))"
proof (induction m fs b d rule: build.induct)
  case (1 m fs b d)
  show ?case
  proof (cases "children (build m fs b d) = []")
    case True
    show ?thesis
      by (subst (1 2) build_external [OF True]) simp
  next
    case False
    then have split: "\<not> (MAX_DEPTH \<le> d \<or> int (length fs) \<le> m)"
      and ne: "build_children m fs b d \<noteq> []"
      by (auto simp: build_children_of split: if_splits)
    have "\<forall>c\<in>set (build_children m fs b d). poiCount c = int (length (leaf_features c))"
      using "1.IH" [OF split] by (auto simp: build_children_mem)
    then have "sum_list (map poiCount (build_children m fs b d))
        = int (length (concat (map leaf_features (build_children m fs b d))))"
      by (rule sum_list_count)
    then show ?thesis
      using ne by (subst (1 2) build_internal [OF False]) simp
  qed
qed

lemma build_leaf_features_set:
  "set (leaf_features (build m fs b d)) =
     (if children (build m fs b d) = [] then set fs else {f \<in> set fs. contains_feature b f})"
proof (induction m fs b d rule: build.induct)
  case (1 m fs b d)
  show ?case
  proof (cases "children (build m fs b d) = []")
    case True
    have "leaf_features (build m fs b d) = fs"
      by (subst build_external [OF True]) simp
    with True show ?thesis by simp
  next
    case False
    then have split: "\<not> (MAX_DEPTH \<le> d \<or> int (length fs) \<le> m)"
      and ne: "build_children m fs b d \<noteq> []"
      by (auto simp: build_children_of split: if_splits)
    have kid: "set (leaf_features (build m (filter (contains_feature q) fs) q (d + 1)))
         = {f \<in> set fs. contains_feature q f}"
      if "q \<in> set (subdivide_into_quadrants b)" "filter (contains_feature q) fs \<noteq> []" for q
      using "1.IH" [OF split that(1) refl that(2)] by auto
    have "leaf_features (build m fs b d) = concat (map leaf_features (build_children m fs b d))"
      using ne by (subst build_internal [OF False]) simp
    then have "set (leaf_features (build m fs b d))
        = (\<Union>c\<in>set (build_children m fs b d). set (leaf_features c))"
      by simp
    also have "\<dots> = {f \<in> set fs. contains_feature b f}"
    proof (intro set_eqI iffI)
      fix f assume "f \<in> (\<Union>c\<in>set (build_children m fs b d). set (leaf_features c))"
      then obtain q where q: "q \<in> set (subdivide_into_quadrants b)"
        "filter (contains_feature q) fs \<noteq> []"
        "f \<in> set (leaf_features (build m (filter (contains_feature q) fs) q (d + 1)))"
        by (auto simp: build_children_mem)
      with kid [OF q(1,2)] have "f \<in> set fs" "contains_feature q f" by auto
      with q(1) show "f \<in> {f \<in> set fs. contains_feature b f}"
        using quadrant_sub by blast
    next
      fix f assume "f \<in> {f \<in> set fs. contains_feature b f}"
      then have f: "f \<in> set fs" "contains_feature b f" by auto
      then obtain q where q: "q \<in> set (subdivide_into_quadrants b)" "contains_feature q f"
        using coverage by blast
      with f have ne': "filter (contains_feature q) fs \<noteq> []"
        by (auto simp: filter_empty_conv)
      have "f \<in> set (leaf_features (build m (filter (contains_feature q) fs) q (d + 1)))"
        using kid [OF q(1) ne'] f q by simp
      moreover have "build m (filter (contains_feature q) fs) q (d + 1) \<in> set (build_children m fs b d)"
        using q(1) ne' by (auto simp: build_children_mem)
      ultimately show "f \<in> (\<Union>c\<in>set (build_children m fs b d). set (leaf_features c))"
        by blast
    qed
    finally show ?thesis
      using False by simp
  qed
qed

lemma quadrant_count:
  "length (filter (contains_feature b) fs)
     \<le> sum_list (map (\<lambda>q. length (filter (contains_feature q) fs)) (subdivide_into_quadrants b))"
proof (induction fs)
  case Nil
  then show ?case by simp
next
  case (Cons f fs)
  show ?case
  proof (cases "contains_feature b f")
    case False
    have "sum_list (map (\<lambda>q. length (filter (contains_feature q) fs)) (subdivide_into_quadrants b))
       \<le> sum_list (map (\<lambda>q. length (filter (contains_feature q) (f # fs))) (subdivide_into_quadrants b))"
      by (rule sum_list_mono) simp
    with Cons False show ?thesis by simp
  next
    case True
    then obtain q where q: "q \<in> set (subdivide_into_quadrants b)" "contains_feature q f"
      using coverage by blast
    have "sum_list (map (\<lambda>q. length (filter (contains_feature q) (f # fs))) (subdivide_into_quadrants b))
      = sum_list (map (\<lambda>q. if contains_feature q f then 1 else 0) (subdivide_into_quadrants b))
        + sum_list (map (\<lambda>q. length (filter (contains_feature q) fs)) (subdivide_into_quadrants b))"
    proof -
      have "sum_list (map (\<lambda>q. length (filter (contains_feature q) (f # fs))) qs)
        = sum_list (map (\<lambda>q. if contains_feature q f then 1 else 0) qs)
          + sum_list (map (\<lambda>q. length (filter (contains_feature q) fs)) qs)" for qs
        by (induction qs) auto
      then show ?thesis .
    qed
    moreover have "(1::nat) \<le> sum_list (map (\<lambda>q. if contains_feature q f then 1 else 0) (subdivide_into_quadrants b))"
    proof -
      have "q \<in> set qs \<Longrightarrow>
          (1::nat) \<le> sum_list (map (\<lambda>q. if contains_feature q f then 1 else 0) qs)" for qs
        using q(2) by (induction qs) auto
      from this [OF q(1)] show ?thesis .
    qed
    ultimately show ?thesis
      using Cons True by simp
  qed
qed

lemma build_children_sum:
  "sum_list (map poiCount (build_children m fs b d)) =
     sum_list (map (\<lambda>q. if filter (contains_feature q) fs \<noteq> []
                         then poiCount (build m (filter (contains_feature q) fs) q (d + 1)) else 0)
                 (subdivide_into_quadrants b))"
proof -
  have "sum_list (map poiCount (concat (map (\<lambda>q. if filter (contains_feature q) fs \<noteq> []
                         then [build m (filter (contains_feature q) fs) q (d + 1)] else []) qs))) =
     sum_list (map (\<lambda>q. if filter (contains_feature q) fs \<noteq> []
                         then poiCount (build m (filter (contains_feature q) fs) q (d + 1)) else 0) qs)" for qs
    by (induction qs) auto
  then show ?thesis
    by (simp add: build_children_def Let_def)
qed

lemma build_lower_bound:
  "int (length (filter (contains_feature b) fs)) \<le> poiCount (build m fs b d)"
proof (induction m fs b d rule: build.induct)
  case (1 m fs b d)
  show ?case
  proof (cases "children (build m fs b d) = []")
    case True
    have "poiCount (build m fs b d) = int (length fs)"
      by (subst build_external [OF True]) simp
    then show ?thesis by simp
  next
    case False
    then have split: "\<not> (MAX_DEPTH \<le> d \<or> int (length fs) \<le> m)"
      by (auto simp: build_children_of split: if_splits)
    have kid: "int (length (filter (contains_feature q) fs))
        \<le> (if filter (contains_feature q) fs \<noteq> []
            then poiCount (build m (filter (contains_feature q) fs) q (d + 1)) else 0)"
      if "q \<in> set (subdivide_into_quadrants b)" for q
      using "1.IH" [OF split that refl] by auto
    have "int (length (filter (contains_feature b) fs))
        \<le> int (sum_list (map (\<lambda>q. length (filter (contains_feature q) fs)) (subdivide_into_quadrants b)))"
      using quadrant_count by simp
    also have "\<dots> = sum_list (map (\<lambda>q. int (length (filter (contains_feature q) fs))) (subdivide_into_quadrants b))"
    proof -
      have "int (sum_list (map (\<lambda>q. length (filter (contains_feature q) fs)) qs))
          = sum_list (map (\<lambda>q. int (length (filter (contains_feature q) fs))) qs)" for qs
        by (induction qs) auto
      then show ?thesis .
    qed
    also have "\<dots> \<le> sum_list (map (\<lambda>q. if filter (contains_feature q) fs \<noteq> []
                         then poiCount (build m (filter (contains_feature q) fs) q (d + 1)) else 0)
                 (subdivide_into_quadrants b))"
      by (rule sum_list_mono) (rule kid)
    also have "\<dots> = poiCount (build m fs b d)"
    proof -
      have "poiCount (build m fs b d) = sum_list (map poiCount (build_children m fs b d))"
        by (subst build_internal [OF False]) simp
      then show ?thesis
        by (simp only: build_children_sum)
    qed
    finally show ?thesis .
  qed
qed

section \<open>The leaves of a built tree\<close>

lemma nodes_at_build_filter:
  "(n, k) \<in> set (nodes_at d (build m fs b d)) \<Longrightarrow>
     (n = build m fs b d \<and> k = d) \<or>
     (\<exists>b'. n = build m (filter (contains_feature b') fs) b' k \<and> d < k
           \<and> (\<forall>f. contains_feature b' f \<longrightarrow> contains_feature b f))"
proof (induction m fs b d arbitrary: n k rule: build.induct)
  case (1 m fs b d)
  from "1.prems" consider "n = build m fs b d \<and> k = d"
    | c where "c \<in> set (children (build m fs b d))" "(n, k) \<in> set (nodes_at (Suc d) c)"
    by (subst (asm) nodes_at_unfold) auto
  then show ?case
  proof cases
    case 1
    then show ?thesis by simp
  next
    case 2
    then have split: "\<not> (MAX_DEPTH \<le> d \<or> int (length fs) \<le> m)"
      and c: "c \<in> set (build_children m fs b d)"
      by (auto simp: build_children_of split: if_splits)
    from c obtain q where q: "q \<in> set (subdivide_into_quadrants b)"
      "filter (contains_feature q) fs \<noteq> []"
      "c = build m (filter (contains_feature q) fs) q (d + 1)"
      unfolding build_children_mem by blast
    have sub: "\<forall>f. contains_feature q f \<longrightarrow> contains_feature b f"
      using q(1) quadrant_sub by blast
    from "1.IH" [OF split q(1) refl q(2), of n k] 2(2) q(3)
    have "(n = c \<and> k = d + 1) \<or>
     (\<exists>b'. n = build m (filter (contains_feature b') (filter (contains_feature q) fs)) b' k
           \<and> d + 1 < k \<and> (\<forall>f. contains_feature b' f \<longrightarrow> contains_feature q f))"
      by simp
    then show ?thesis
    proof
      assume "n = c \<and> k = d + 1"
      with q sub have "n = build m (filter (contains_feature q) fs) q k \<and> d < k
          \<and> (\<forall>f. contains_feature q f \<longrightarrow> contains_feature b f)"
        by simp
      then show ?thesis by blast
    next
      assume "\<exists>b'. n = build m (filter (contains_feature b') (filter (contains_feature q) fs)) b' k
           \<and> d + 1 < k \<and> (\<forall>f. contains_feature b' f \<longrightarrow> contains_feature q f)"
      then obtain b' where b': "n = build m (filter (contains_feature b') (filter (contains_feature q) fs)) b' k"
        "d + 1 < k" "\<forall>f. contains_feature b' f \<longrightarrow> contains_feature q f"
        by blast
      have "filter (contains_feature b') (filter (contains_feature q) fs) = filter (contains_feature b') fs"
        using b'(3) by (auto intro: filter_cong)
      with b' sub have "n = build m (filter (contains_feature b') fs) b' k \<and> d < k
           \<and> (\<forall>f. contains_feature b' f \<longrightarrow> contains_feature b f)"
        by simp
      then show ?thesis by blast
    qed
  qed
qed

lemma leaf_features_nodes_at:
  "concat (map data (filter is_leaf (map fst (nodes_at k t)))) = leaf_features t"
proof (induction t arbitrary: k)
  case (QuadtreeNode b d cs pc ap)
  have "concat (map data (filter is_leaf (map fst (concat (map (nodes_at k') xs)))))
      = concat (map (\<lambda>c. concat (map data (filter is_leaf (map fst (nodes_at k' c))))) xs)" for k' xs
    by (induction xs) auto
  then have "concat (map data (filter is_leaf (map fst (concat (map (nodes_at (Suc k)) cs)))))
      = concat (map leaf_features cs)"
    using QuadtreeNode.IH by (simp cong: map_cong)
  moreover have "is_leaf (QuadtreeNode b d cs pc ap) \<longleftrightarrow> cs = []"
    by (simp add: is_leaf_def)
  ultimately show ?case
    by simp
qed

lemma leaf_features_leaves: "leaf_features t = concat (map data (leaves t))"
  by (simp add: leaves_def nodes_def leaf_features_nodes_at)

lemma leaf_data:
  assumes "\<not> is_leaf (build m fs b 0)" and "l \<in> set (leaves (build m fs b 0))"
  shows "data l = filter (contains_feature (bbox l)) fs"
proof -
  from assms(2) obtain k where k: "(l, k) \<in> set (nodes_at 0 (build m fs b 0))" and leaf: "is_leaf l"
    by (auto simp: leaves_def nodes_def)
  from nodes_at_build_filter [OF k] assms(1) leaf
  obtain b' where l: "l = build m (filter (contains_feature b') fs) b' k"
    by auto
  from leaf have "children (build m (filter (contains_feature b') fs) b' k) = []"
    by (simp add: is_leaf_def l)
  from build_external [OF this] show ?thesis
    by (simp add: l)
qed

lemma leaf_sum:
  assumes "\<not> is_leaf (build m fs b 0)"
  shows "poiCount (build m fs b 0)
     = sum_list (map (\<lambda>l. int (length (filter (contains_feature (bbox l)) fs))) (leaves (build m fs b 0)))"
proof -
  have "int (length (concat (map data ls))) = sum_list (map (\<lambda>l. int (length (data l))) ls)" for ls
    by (induction ls) auto
  then have "poiCount (build m fs b 0)
      = sum_list (map (\<lambda>l. int (length (data l))) (leaves (build m fs b 0)))"
    by (simp add: build_count leaf_features_leaves)
  also have "\<dots> = sum_list (map (\<lambda>l. int (length (filter (contains_feature (bbox l)) fs))) (leaves (build m fs b 0)))"
    by (rule arg_cong [where f = sum_list], rule map_cong [OF refl]) (simp add: leaf_data [OF assms])
  finally show ?thesis .
qed

lemma filter_disjoint_length:
  "\<forall>x\<in>set xs. \<not> (A x \<and> B x) \<Longrightarrow>
   length (filter (\<lambda>x. A x \<or> B x) xs) = length (filter A xs) + length (filter B xs)"
  by (induction xs) auto

lemma disjoint_boxes_count:
  "sorted_wrt (\<lambda>a c. \<forall>f\<in>set fs. \<not> (contains_feature (bbox a) f \<and> contains_feature (bbox c) f)) ls \<Longrightarrow>
   sum_list (map (\<lambda>l. length (filter (contains_feature (bbox l)) fs)) ls)
     = length (filter (\<lambda>f. \<exists>l\<in>set ls. contains_feature (bbox l) f) fs)"
proof (induction ls)
  case Nil
  then show ?case by simp
next
  case (Cons l ls)
  have dis: "\<forall>f\<in>set fs. \<not> (contains_feature (bbox l) f \<and> (\<exists>l'\<in>set ls. contains_feature (bbox l') f))"
    using Cons.prems by auto
  have "length (filter (\<lambda>f. \<exists>l'\<in>set (l # ls). contains_feature (bbox l') f) fs)
      = length (filter (\<lambda>f. contains_feature (bbox l) f \<or> (\<exists>l'\<in>set ls. contains_feature (bbox l') f)) fs)"
    by simp
  also have "\<dots> = length (filter (contains_feature (bbox l)) fs)
      + length (filter (\<lambda>f. \<exists>l'\<in>set ls. contains_feature (bbox l') f) fs)"
    using dis by (rule filter_disjoint_length)
  finally show ?case
    using Cons by simp
qed

lemma leaves_cover:
  assumes "\<not> is_leaf (build m fs b 0)" and "f \<in> set fs"
  shows "(\<exists>l\<in>set (leaves (build m fs b 0)). contains_feature (bbox l) f) \<longleftrightarrow> contains_feature b f"
proof
  assume "contains_feature b f"
  with assms have "f \<in> set (leaf_features (build m fs b 0))"
    by (simp add: build_leaf_features_set is_leaf_def)
  then obtain l where l: "l \<in> set (leaves (build m fs b 0))" "f \<in> set (data l)"
    by (auto simp: leaf_features_leaves)
  with leaf_data [OF assms(1) l(1)] show "\<exists>l\<in>set (leaves (build m fs b 0)). contains_feature (bbox l) f"
    by auto
next
  assume "\<exists>l\<in>set (leaves (build m fs b 0)). contains_feature (bbox l) f"
  then obtain l where l: "l \<in> set (leaves (build m fs b 0))" "contains_feature (bbox l) f"
    by blast
  with assms(2) leaf_data [OF assms(1) l(1)] have "f \<in> set (data l)"
    by simp
  with l(1) have "f \<in> set (leaf_features (build m fs b 0))"
    unfolding leaf_features_leaves by auto
  with assms(1) show "contains_feature b f"
    by (simp add: build_leaf_features_set is_leaf_def)
qed

lemma disjoint_leaves_exact:
  assumes "\<not> is_leaf (build m fs b 0)"
    and "sorted_wrt (\<lambda>a c. \<forall>f\<in>set fs. \<not> (contains_feature (bbox a) f \<and> contains_feature (bbox c) f))
           (leaves (build m fs b 0))"
  shows "poiCount (build m fs b 0) = int (length (filter (contains_feature b) fs))"
proof -
  have "sum_list (map (\<lambda>l. int (length (filter (contains_feature (bbox l)) fs))) ls)
      = int (sum_list (map (\<lambda>l. length (filter (contains_feature (bbox l)) fs)) ls))" for ls
    by (induction ls) auto
  then have "poiCount (build m fs b 0)
      = int (length (filter (\<lambda>f. \<exists>l\<in>set (leaves (build m fs b 0)). contains_feature (bbox l) f) fs))"
    by (simp add: leaf_sum [OF assms(1)] disjoint_boxes_count [OF assms(2)])
  also have "filter (\<lambda>f. \<exists>l\<in>set (leaves (build m fs b 0)). contains_feature (bbox l) f) fs
      = filter (contains_feature b) fs"
    by (rule filter_cong [OF refl]) (rule leaves_cover [OF assms(1)])
  finally show ?thesis .
qed

section \<open>Concrete trees\<close>

text \<open>
  The trees that the builder returns in the scenarios used below, computed from the
  definitions.
\<close>

lemmas evaluate = build.simps build_quadtree_for_category_def MAX_DEPTH_def MAX_PER_NODE_def
  subdivide_into_quadrants_def contains_feature_def accumulate_def own_average_position_def
  box_0_4_def point_def Let_def

lemma root_in_nodes: "t \<in> set (nodes t)"
  by (cases t) (simp add: nodes_def)

lemma four_points:
  "build_quadtree_for_category [point 1 1, point 1 3, point 3 1, point 3 3] box_0_4 1 =
     QuadtreeNode box_0_4 []
       [QuadtreeNode \<lparr>south = 0, west = 0, north = 2, east = 2\<rparr> [point 1 1] [] 1 (Some (1, 1)),
        QuadtreeNode \<lparr>south = 0, west = 2, north = 2, east = 4\<rparr> [point 3 1] [] 1 (Some (3, 1)),
        QuadtreeNode \<lparr>south = 2, west = 0, north = 4, east = 2\<rparr> [point 1 3] [] 1 (Some (1, 3)),
        QuadtreeNode \<lparr>south = 2, west = 2, north = 4, east = 4\<rparr> [point 3 3] [] 1 (Some (3, 3))]
       4 (Some (2, 2))"
  by (simp add: evaluate)

lemma outside_point:
  "build_quadtree_for_category [point 5 5] box_0_4 m =
     QuadtreeNode box_0_4 [point 5 5] [] 1 (Some (5, 5))"
  by (simp add: build_quadtree_for_category_def build_stays_leaf mean_position_def
      contains_feature_def box_0_4_def point_def)

lemma outside_points:
  "build_quadtree_for_category [point 5 5, point 6 6] box_0_4 1 =
     QuadtreeNode box_0_4 [point 5 5, point 6 6] [] 2 (mean_position [point 5 5, point 6 6])"
  by (simp add: build_quadtree_for_category_def build_stays_leaf
      contains_feature_def box_0_4_def point_def)

lemma inside_and_outside:
  "build 1 [point 1 1, point 5 5] box_0_4 0 =
     QuadtreeNode box_0_4 []
       [QuadtreeNode \<lparr>south = 0, west = 0, north = 2, east = 2\<rparr> [point 1 1] [] 1 (Some (1, 1))]
       1 (Some (1, 1))"
  by (simp add: evaluate)

lemma build_children_all:
  assumes "\<forall>q\<in>set (subdivide_into_quadrants b). filter (contains_feature q) fs \<noteq> []"
  shows "build_children m fs b d =
           map (\<lambda>q. build m (filter (contains_feature q) fs) q (d + 1)) (subdivide_into_quadrants b)"
proof -
  have "\<forall>q\<in>set qs. filter (contains_feature q) fs \<noteq> [] \<Longrightarrow>
      concat (map (\<lambda>q. let bucket = filter (contains_feature q) fs
                         in if bucket \<noteq> [] then [build m bucket q (d + 1)] else []) qs)
        = map (\<lambda>q. build m (filter (contains_feature q) fs) q (d + 1)) qs" for qs
    by (induction qs) (simp_all add: Let_def)
  from this [OF assms] show ?thesis
    by (simp add: build_children_def)
qed

lemma bucket_leaf_features:
  "set (leaf_features (build m (filter (contains_feature q) fs) q d)) = {f \<in> set fs. contains_feature q f}"
  by (auto simp: build_leaf_features_set)

section \<open>Properties of the quadrants\<close>

text \<open>
  C6: \<open>subdivide_into_quadrants\<close> splits a box at the midpoint of both axes and returns
  the four quadrants in the order south-west, south-east, north-west, north-east. The
  quadrants tile the box: a position lies in the box exactly when it lies in one of the
  quadrants, two different quadrants share only positions on a midpoint edge, and the
  areas of the quadrants add up to the area of the box.
\<close>

theorem quadrants_tile_box:
  "subdivide_into_quadrants b =
     [\<lparr>south = south b, west = west b,
        north = (south b + north b) / 2, east = (west b + east b) / 2\<rparr>,
      \<lparr>south = south b, west = (west b + east b) / 2,
        north = (south b + north b) / 2, east = east b\<rparr>,
      \<lparr>south = (south b + north b) / 2, west = west b,
        north = north b, east = (west b + east b) / 2\<rparr>,
      \<lparr>south = (south b + north b) / 2, west = (west b + east b) / 2,
        north = north b, east = east b\<rparr>]
   \<and> (contains_feature b f \<longleftrightarrow> (\<exists>q\<in>set (subdivide_into_quadrants b). contains_feature q f))
   \<and> (i < j \<and> j < 4
        \<and> contains_feature (subdivide_into_quadrants b ! i) f
        \<and> contains_feature (subdivide_into_quadrants b ! j) f
      \<longrightarrow> lat f = (south b + north b) / 2 \<or> lon f = (west b + east b) / 2)
   \<and> sum_list (map area (subdivide_into_quadrants b)) = area b"
proof (intro conjI)
  show "contains_feature b f \<longleftrightarrow> (\<exists>q\<in>set (subdivide_into_quadrants b). contains_feature q f)"
    using coverage quadrant_sub by blast
next
  show "i < j \<and> j < 4
        \<and> contains_feature (subdivide_into_quadrants b ! i) f
        \<and> contains_feature (subdivide_into_quadrants b ! j) f
      \<longrightarrow> lat f = (south b + north b) / 2 \<or> lon f = (west b + east b) / 2"
  proof
    assume a: "i < j \<and> j < 4
        \<and> contains_feature (subdivide_into_quadrants b ! i) f
        \<and> contains_feature (subdivide_into_quadrants b ! j) f"
    then have "j = 1 \<and> i = 0 \<or> j = 2 \<and> (i = 0 \<or> i = 1) \<or> j = 3 \<and> (i = 0 \<or> i = 1 \<or> i = 2)"
      by arith
    with a show "lat f = (south b + north b) / 2 \<or> lon f = (west b + east b) / 2"
      by (auto simp: subdivide_into_quadrants_def contains_feature_def Let_def)
  qed
next
  show "sum_list (map area (subdivide_into_quadrants b)) = area b"
    by (simp add: subdivide_into_quadrants_def area_def Let_def field_simps)
qed (simp add: subdivide_into_quadrants_def Let_def)

theorem quadrants_tile_box_witness:
  "(0::nat) < 3 \<and> (3::nat) < 4
   \<and> contains_feature (subdivide_into_quadrants \<lparr>south = 0, west = 0, north = 4, east = 4\<rparr> ! 0)
        \<lparr>lon = 2, lat = 2, tags = []\<rparr>
   \<and> contains_feature (subdivide_into_quadrants \<lparr>south = 0, west = 0, north = 4, east = 4\<rparr> ! 3)
        \<lparr>lon = 2, lat = 2, tags = []\<rparr>
   \<and> contains_feature \<lparr>south = 0, west = 0, north = 4, east = 4\<rparr> \<lparr>lon = 2, lat = 2, tags = []\<rparr>
   \<and> lat \<lparr>lon = 2, lat = 2, tags = []\<rparr> = (0 + 4) / 2
   \<and> sum_list (map area (subdivide_into_quadrants \<lparr>south = 0, west = 0, north = 4, east = 4\<rparr>)) = 16"
  using quadrants_tile_box [of "\<lparr>south = 0, west = 0, north = 4, east = 4\<rparr>"
      "\<lparr>lon = 2, lat = 2, tags = []\<rparr>" 0 3]
  by (simp add: subdivide_into_quadrants_def contains_feature_def area_def Let_def)

section \<open>Empty input\<close>

text \<open>
  C8: building from an empty feature list returns, for every box and every
  \<open>max_per_node\<close>, a single node without children and without data, with
  \<open>poiCount = 0\<close> and no \<open>averagePosition\<close>.
\<close>

theorem empty_input_leaf:
  "build_quadtree_for_category [] box max_per_node = QuadtreeNode box [] [] 0 None"
  by (simp add: build_quadtree_for_category_def build_empty)

section \<open>Idempotence of the aggregation pass\<close>

text \<open>
  C10: running \<open>_compute_average_position\<close> on a tree that it has already processed
  changes nothing, and the tree that \<open>_build\<close> returns is such a tree, at every depth of
  the recursion.
\<close>

theorem aggregation_idempotent:
  "compute_average_position (compute_average_position t) = compute_average_position t
   \<and> compute_average_position (build max_per_node feats box depth) = build max_per_node feats box depth
   \<and> compute_average_position (build_quadtree_for_category feats box max_per_node)
       = build_quadtree_for_category feats box max_per_node"
  by (simp add: cap_idem cap_build build_quadtree_for_category_def del: compute_average_position.simps)

section \<open>Per-depth statistics\<close>

text \<open>
  C2: \<open>compute_depth_stats\<close> reads \<open>node.chunkSizeKm\<close> for the first node it takes from
  the queue, the root. No node has this attribute, so the call raises \<open>AttributeError\<close>
  for every tree, the trees returned by \<open>build_quadtree_for_category\<close> among them.
\<close>

theorem compute_depth_stats_raises:
  "compute_depth_stats (build_quadtree_for_category feats box max_per_node) = Inl AttributeError
   \<and> compute_depth_stats t = Inl AttributeError"
  by (simp add: compute_depth_stats_def chunkSizeKm_def Let_def)

section \<open>Aggregation postconditions\<close>

text \<open>
  C1: in the tree that \<open>build_quadtree_for_category\<close> returns, every leaf has
  \<open>poiCount\<close> equal to the number of its features and the mean of their coordinates as
  \<open>averagePosition\<close> (none without features), and every internal node has the sum of
  its children's counts as \<open>poiCount\<close> and the mean of their average positions,
  weighted by their counts, as \<open>averagePosition\<close>.
\<close>

theorem aggregation_postconditions:
  "\<forall>n\<in>set (nodes (build_quadtree_for_category feats box max_per_node)). aggregation_post n"
proof
  fix n assume "n \<in> set (nodes (build_quadtree_for_category feats box max_per_node))"
  then obtain fs' b' k where "n = build max_per_node fs' b' k"
    unfolding build_quadtree_for_category_def using node_is_build by blast
  then show "aggregation_post n"
    by (simp add: build_aggregation_post)
qed

theorem aggregation_postconditions_witness:
  "build_quadtree_for_category [point 1 1, point 1 3, point 3 1, point 3 3] box_0_4 1
     \<in> set (nodes (build_quadtree_for_category [point 1 1, point 1 3, point 3 1, point 3 3] box_0_4 1))
   \<and> aggregation_post (build_quadtree_for_category [point 1 1, point 1 3, point 3 1, point 3 3] box_0_4 1)
   \<and> poiCount (build_quadtree_for_category [point 1 1, point 1 3, point 3 1, point 3 3] box_0_4 1) = 4
   \<and> averagePosition (build_quadtree_for_category [point 1 1, point 1 3, point 3 1, point 3 3] box_0_4 1)
       = Some (2, 2)"
  using aggregation_postconditions [of "[point 1 1, point 1 3, point 3 1, point 3 3]" box_0_4 1]
    root_in_nodes [of "build_quadtree_for_category [point 1 1, point 1 3, point 3 1, point 3 3] box_0_4 1"]
  by (simp add: four_points)

section \<open>Leaves and internal nodes\<close>

text \<open>
  C5: in a built tree a node is a leaf exactly when it has no children, and a node
  with children holds no data of its own and has between one and four children.
\<close>

theorem structural_invariant:
  "\<forall>n\<in>set (nodes (build_quadtree_for_category feats box max_per_node)).
     (is_leaf n \<longleftrightarrow> children n = [])
     \<and> (\<not> is_leaf n \<longrightarrow> data n = [] \<and> 1 \<le> length (children n) \<and> length (children n) \<le> 4)"
proof
  fix n assume "n \<in> set (nodes (build_quadtree_for_category feats box max_per_node))"
  then obtain fs' b' k where n: "n = build max_per_node fs' b' k"
    unfolding build_quadtree_for_category_def using node_is_build by blast
  have "length (children n) \<le> 4"
    unfolding n by (simp add: build_children_of build_children_length)
  moreover have "children n \<noteq> [] \<longrightarrow> data n = []"
    unfolding n by (simp add: build_data_of)
  moreover have "children n \<noteq> [] \<longrightarrow> 1 \<le> length (children n)"
    by (cases "children n") auto
  ultimately show "(is_leaf n \<longleftrightarrow> children n = [])
     \<and> (\<not> is_leaf n \<longrightarrow> data n = [] \<and> 1 \<le> length (children n) \<and> length (children n) \<le> 4)"
    by (simp add: is_leaf_def)
qed

theorem structural_invariant_witness:
  "build_quadtree_for_category [point 1 1, point 1 3, point 3 1, point 3 3] box_0_4 1
     \<in> set (nodes (build_quadtree_for_category [point 1 1, point 1 3, point 3 1, point 3 3] box_0_4 1))
   \<and> \<not> is_leaf (build_quadtree_for_category [point 1 1, point 1 3, point 3 1, point 3 3] box_0_4 1)
   \<and> data (build_quadtree_for_category [point 1 1, point 1 3, point 3 1, point 3 3] box_0_4 1) = []
   \<and> length (children (build_quadtree_for_category [point 1 1, point 1 3, point 3 1, point 3 3] box_0_4 1)) = 4"
  using structural_invariant [of "[point 1 1, point 1 3, point 3 1, point 3 3]" box_0_4 1]
    root_in_nodes [of "build_quadtree_for_category [point 1 1, point 1 3, point 3 1, point 3 3] box_0_4 1"]
  by (simp add: four_points is_leaf_def)

section \<open>The count at the root\<close>

text \<open>
  A root that stays a leaf counts a feature outside of its box: with the default
  \<open>max_per_node\<close>, one feature at \<open>(5, 5)\<close> and the box \<open>(0, 0, 4, 4)\<close> the root has
  \<open>poiCount = 1\<close> while no feature lies in the box.
\<close>

theorem root_count_counterexample:
  "poiCount (build_quadtree_for_category [point 5 5] box_0_4 MAX_PER_NODE) = 1
   \<and> int (length (filter (contains_feature box_0_4) [point 5 5])) = 0"
  by (intro conjI) (simp add: outside_point, simp add: contains_feature_def box_0_4_def point_def)

text \<open>
  C3, as the code has it: the \<open>poiCount\<close> of the root is the number of features held
  by the leaves of the tree, and it is at least the number of input features inside the
  root box. When the root is a leaf it is the number of all features supplied, inside
  the box or not. When the root has children, the leaves hold the input features inside
  the root box and no others: every leaf holds exactly the input features that lie in
  its own box, so the count is the sum, over the leaves, of the number of input features
  in the box of the leaf (a feature on a split line is counted once for every leaf that
  touches it); and when no input feature lies in the boxes of two leaves, the count is
  the number of input features inside the root box.
\<close>

theorem root_count:
  "poiCount (build_quadtree_for_category feats box max_per_node)
     = int (length (leaf_features (build_quadtree_for_category feats box max_per_node)))
   \<and> int (length (filter (contains_feature box) feats))
       \<le> poiCount (build_quadtree_for_category feats box max_per_node)
   \<and> (is_leaf (build_quadtree_for_category feats box max_per_node) \<longrightarrow>
        poiCount (build_quadtree_for_category feats box max_per_node) = int (length feats))
   \<and> (\<not> is_leaf (build_quadtree_for_category feats box max_per_node) \<longrightarrow>
        set (leaf_features (build_quadtree_for_category feats box max_per_node))
          = {f \<in> set feats. contains_feature box f}
        \<and> (\<forall>l\<in>set (leaves (build_quadtree_for_category feats box max_per_node)).
              data l = filter (contains_feature (bbox l)) feats)
        \<and> poiCount (build_quadtree_for_category feats box max_per_node)
            = sum_list (map (\<lambda>l. int (length (filter (contains_feature (bbox l)) feats)))
                (leaves (build_quadtree_for_category feats box max_per_node))))
   \<and> (\<not> is_leaf (build_quadtree_for_category feats box max_per_node)
        \<and> sorted_wrt (\<lambda>a c. \<forall>f\<in>set feats.
              \<not> (contains_feature (bbox a) f \<and> contains_feature (bbox c) f))
            (leaves (build_quadtree_for_category feats box max_per_node)) \<longrightarrow>
        poiCount (build_quadtree_for_category feats box max_per_node)
          = int (length (filter (contains_feature box) feats)))"
proof -
  let ?t = "build max_per_node feats box 0"
  have t: "build_quadtree_for_category feats box max_per_node = ?t"
    by (simp add: build_quadtree_for_category_def)
  have count: "poiCount ?t = int (length (leaf_features ?t))"
    by (rule build_count)
  have lower: "int (length (filter (contains_feature box) feats)) \<le> poiCount ?t"
    by (rule build_lower_bound)
  have leaf: "poiCount ?t = int (length feats)" if "is_leaf ?t"
  proof -
    from that have "children ?t = []"
      by (simp add: is_leaf_def)
    from build_external [OF this] show ?thesis
      by simp
  qed
  have inner: "set (leaf_features ?t) = {f \<in> set feats. contains_feature box f}
        \<and> (\<forall>l\<in>set (leaves ?t). data l = filter (contains_feature (bbox l)) feats)
        \<and> poiCount ?t
            = sum_list (map (\<lambda>l. int (length (filter (contains_feature (bbox l)) feats))) (leaves ?t))"
    if "\<not> is_leaf ?t"
    using that leaf_data [OF that] leaf_sum [OF that]
    by (simp add: build_leaf_features_set is_leaf_def)
  have exact: "poiCount ?t = int (length (filter (contains_feature box) feats))"
    if "\<not> is_leaf ?t \<and> sorted_wrt (\<lambda>a c. \<forall>f\<in>set feats.
              \<not> (contains_feature (bbox a) f \<and> contains_feature (bbox c) f)) (leaves ?t)"
    using that disjoint_leaves_exact by blast
  from count lower leaf inner exact show ?thesis
    unfolding t by blast
qed

theorem root_count_witness:
  "\<not> is_leaf (build_quadtree_for_category [point 1 1, point 1 3, point 3 1, point 3 3] box_0_4 1)
   \<and> sorted_wrt (\<lambda>a c. \<forall>f\<in>set [point 1 1, point 1 3, point 3 1, point 3 3].
          \<not> (contains_feature (bbox a) f \<and> contains_feature (bbox c) f))
        (leaves (build_quadtree_for_category [point 1 1, point 1 3, point 3 1, point 3 3] box_0_4 1))
   \<and> poiCount (build_quadtree_for_category [point 1 1, point 1 3, point 3 1, point 3 3] box_0_4 1)
       = int (length (filter (contains_feature box_0_4) [point 1 1, point 1 3, point 3 1, point 3 3]))
   \<and> poiCount (build_quadtree_for_category [point 1 1, point 1 3, point 3 1, point 3 3] box_0_4 1) = 4
   \<and> \<not> is_leaf (build_quadtree_for_category [point 1 1, point 5 5] box_0_4 1)
   \<and> set (leaf_features (build_quadtree_for_category [point 1 1, point 5 5] box_0_4 1))
       = {f \<in> set [point 1 1, point 5 5]. contains_feature box_0_4 f}
   \<and> poiCount (build_quadtree_for_category [point 1 1, point 5 5] box_0_4 1) = 1
   \<and> is_leaf (build_quadtree_for_category [point 5 5] box_0_4 MAX_PER_NODE)
   \<and> poiCount (build_quadtree_for_category [point 5 5] box_0_4 MAX_PER_NODE) = int (length [point 5 5])
   \<and> int (length (filter (contains_feature box_0_4) [point 5 5]))
       \<le> poiCount (build_quadtree_for_category [point 5 5] box_0_4 MAX_PER_NODE)"
proof -
  let ?F4 = "[point 1 1, point 1 3, point 3 1, point 3 3]"
  have a1: "\<not> is_leaf (build_quadtree_for_category ?F4 box_0_4 1)"
    by (simp add: four_points is_leaf_def)
  have a2: "sorted_wrt (\<lambda>a c. \<forall>f\<in>set ?F4.
          \<not> (contains_feature (bbox a) f \<and> contains_feature (bbox c) f))
        (leaves (build_quadtree_for_category ?F4 box_0_4 1))"
    by (simp add: four_points leaves_def nodes_def is_leaf_def)
       (simp add: contains_feature_def point_def)
  have a3: "poiCount (build_quadtree_for_category ?F4 box_0_4 1) = 4"
    by (simp add: four_points)
  have b1: "\<not> is_leaf (build_quadtree_for_category [point 1 1, point 5 5] box_0_4 1)"
    "poiCount (build_quadtree_for_category [point 1 1, point 5 5] box_0_4 1) = 1"
    by (simp_all add: build_quadtree_for_category_def inside_and_outside is_leaf_def)
  have c1: "is_leaf (build_quadtree_for_category [point 5 5] box_0_4 MAX_PER_NODE)"
    by (simp add: outside_point is_leaf_def)
  from root_count [of ?F4 box_0_4 1] a1 a2
  have 1: "poiCount (build_quadtree_for_category ?F4 box_0_4 1)
       = int (length (filter (contains_feature box_0_4) ?F4))"
    by blast
  from root_count [of "[point 1 1, point 5 5]" box_0_4 1] b1(1)
  have 2: "set (leaf_features (build_quadtree_for_category [point 1 1, point 5 5] box_0_4 1))
       = {f \<in> set [point 1 1, point 5 5]. contains_feature box_0_4 f}"
    by blast
  from root_count [of "[point 5 5]" box_0_4 MAX_PER_NODE] c1
  have 3: "poiCount (build_quadtree_for_category [point 5 5] box_0_4 MAX_PER_NODE) = int (length [point 5 5])"
    "int (length (filter (contains_feature box_0_4) [point 5 5]))
       \<le> poiCount (build_quadtree_for_category [point 5 5] box_0_4 MAX_PER_NODE)"
    by blast+
  from a1 a2 a3 b1 c1 1 2 3 show ?thesis
    by blast
qed

section \<open>Depth and capacity\<close>

text \<open>
  With \<open>max_per_node = 0\<close>, one feature at \<open>(5, 5)\<close> and the box \<open>(0, 0, 4, 4)\<close> the
  root is a leaf at depth 0 with \<open>poiCount = 1\<close>, above \<open>max_per_node\<close>, although neither
  the depth nor the number of features stops the subdivision: no quadrant contains the
  feature, so no child is made.
\<close>

theorem depth_policy_counterexample:
  "(build_quadtree_for_category [point 5 5] box_0_4 0, 0)
     \<in> set (nodes_at 0 (build_quadtree_for_category [point 5 5] box_0_4 0))
   \<and> is_leaf (build_quadtree_for_category [point 5 5] box_0_4 0)
   \<and> 0 < MAX_DEPTH
   \<and> \<not> poiCount (build_quadtree_for_category [point 5 5] box_0_4 0) \<le> 0
   \<and> \<not> (MAX_DEPTH \<le> 0 \<or> int (length [point 5 5]) \<le> 0)"
  by (simp add: outside_point is_leaf_def MAX_DEPTH_def)

text \<open>
  C4, as the code has it: no node of a built tree lies deeper than \<open>MAX_DEPTH\<close>; a leaf
  above \<open>MAX_DEPTH\<close> has \<open>poiCount \<le> max_per_node\<close>, unless it is the root and none of the
  features supplied lies in the root box; and \<open>_build\<close> returns a leaf exactly when the
  depth has reached \<open>MAX_DEPTH\<close>, or the number of features is at most \<open>max_per_node\<close>,
  or no feature lies in the box (which leaves the first two when some feature does).
\<close>

theorem depth_policy:
  "(\<forall>(n, k)\<in>set (nodes_at 0 (build_quadtree_for_category feats box max_per_node)).
      k \<le> MAX_DEPTH
      \<and> (is_leaf n \<and> k < MAX_DEPTH \<longrightarrow>
           poiCount n \<le> max_per_node \<or> (k = 0 \<and> (\<forall>f\<in>set feats. \<not> contains_feature box f))))
   \<and> (is_leaf (build max_per_node fs b d) \<longleftrightarrow>
        MAX_DEPTH \<le> d \<or> int (length fs) \<le> max_per_node \<or> (\<forall>f\<in>set fs. \<not> contains_feature b f))
   \<and> ((\<exists>f\<in>set fs. contains_feature b f) \<longrightarrow>
        (is_leaf (build max_per_node fs b d) \<longleftrightarrow> MAX_DEPTH \<le> d \<or> int (length fs) \<le> max_per_node))"
proof (intro conjI)
  show "\<forall>(n, k)\<in>set (nodes_at 0 (build_quadtree_for_category feats box max_per_node)).
      k \<le> MAX_DEPTH
      \<and> (is_leaf n \<and> k < MAX_DEPTH \<longrightarrow>
           poiCount n \<le> max_per_node \<or> (k = 0 \<and> (\<forall>f\<in>set feats. \<not> contains_feature box f)))"
  proof (intro ballI, clarify)
    fix n k
    assume "(n, k) \<in> set (nodes_at 0 (build_quadtree_for_category feats box max_per_node))"
    then have "(n, k) \<in> set (nodes_at 0 (build max_per_node feats box 0))"
      by (simp add: build_quadtree_for_category_def)
    from nodes_at_build [OF this]
    obtain fs' b' where n: "n = build max_per_node fs' b' k" "k \<le> MAX_DEPTH"
      and cases: "(k = 0 \<and> fs' = feats \<and> b' = box)
                \<or> (fs' \<noteq> [] \<and> (\<forall>f\<in>set fs'. contains_feature b' f))"
      by auto
    have "poiCount n \<le> max_per_node \<or> (k = 0 \<and> (\<forall>f\<in>set feats. \<not> contains_feature box f))"
      if leaf: "is_leaf n" and k: "k < MAX_DEPTH"
    proof -
      from leaf have c: "children (build max_per_node fs' b' k) = []"
        by (simp add: is_leaf_def n)
      then have pc: "poiCount n = int (length fs')"
        by (simp add: n build_external)
      from c k have "int (length fs') \<le> max_per_node \<or> (\<forall>f\<in>set fs'. \<not> contains_feature b' f)"
        by (simp add: build_is_leaf)
      with cases pc show ?thesis
        by (cases fs') auto
    qed
    with n(2) show "k \<le> MAX_DEPTH
      \<and> (is_leaf n \<and> k < MAX_DEPTH \<longrightarrow>
           poiCount n \<le> max_per_node \<or> (k = 0 \<and> (\<forall>f\<in>set feats. \<not> contains_feature box f)))"
      by blast
  qed
next
  show "is_leaf (build max_per_node fs b d) \<longleftrightarrow>
        MAX_DEPTH \<le> d \<or> int (length fs) \<le> max_per_node \<or> (\<forall>f\<in>set fs. \<not> contains_feature b f)"
    by (simp add: is_leaf_def build_is_leaf)
next
  show "(\<exists>f\<in>set fs. contains_feature b f) \<longrightarrow>
        (is_leaf (build max_per_node fs b d) \<longleftrightarrow> MAX_DEPTH \<le> d \<or> int (length fs) \<le> max_per_node)"
    by (auto simp: is_leaf_def build_is_leaf)
qed

theorem depth_policy_witness:
  "(QuadtreeNode \<lparr>south = 0, west = 0, north = 2, east = 2\<rparr> [point 1 1] [] 1 (Some (1, 1)), 1)
     \<in> set (nodes_at 0
          (build_quadtree_for_category [point 1 1, point 1 3, point 3 1, point 3 3] box_0_4 1))
   \<and> (1::nat) \<le> MAX_DEPTH \<and> (1::nat) < MAX_DEPTH
   \<and> is_leaf (QuadtreeNode \<lparr>south = 0, west = 0, north = 2, east = 2\<rparr> [point 1 1] [] 1 (Some (1, 1)))
   \<and> poiCount (QuadtreeNode \<lparr>south = 0, west = 0, north = 2, east = 2\<rparr> [point 1 1] [] 1 (Some (1, 1)))
       \<le> 1
   \<and> (\<exists>f\<in>set [point 1 1, point 1 3, point 3 1, point 3 3]. contains_feature box_0_4 f)
   \<and> \<not> is_leaf (build 1 [point 1 1, point 1 3, point 3 1, point 3 3] box_0_4 0)"
  using depth_policy [of "[point 1 1, point 1 3, point 3 1, point 3 3]" box_0_4 1
      "[point 1 1, point 1 3, point 3 1, point 3 3]" box_0_4 0]
  by (simp add: four_points is_leaf_def MAX_DEPTH_def)
     (simp add: contains_feature_def box_0_4_def point_def)

section \<open>Features on shared edges\<close>

text \<open>
  With the default \<open>max_per_node\<close>, the box \<open>(0, 0, 4, 4)\<close> and the single feature at
  \<open>(2, 2)\<close>, the feature lies in all four quadrants of the box, but the termination test
  makes the root a leaf: no quadrant gets a node, and the feature is counted once, at
  the root.
\<close>

theorem boundary_duplication_counterexample:
  "list_all (\<lambda>q. contains_feature q (point 2 2)) (subdivide_into_quadrants box_0_4)
   \<and> int (length [point 2 2]) \<le> MAX_PER_NODE
   \<and> children (build_quadtree_for_category [point 2 2] box_0_4 MAX_PER_NODE) = []
   \<and> data (build_quadtree_for_category [point 2 2] box_0_4 MAX_PER_NODE) = [point 2 2]
   \<and> poiCount (build_quadtree_for_category [point 2 2] box_0_4 MAX_PER_NODE) = 1"
  by (intro conjI)
     (simp add: subdivide_into_quadrants_def contains_feature_def box_0_4_def point_def Let_def,
      simp_all add: build_quadtree_for_category_def build_leaf MAX_PER_NODE_def)

text \<open>
  C7, as the code has it: containment is inclusive on all four edges; a position of the box on the
  horizontal (vertical) midline lies in a southern (western) quadrant exactly when it
  lies in the northern (eastern) one beside it. In the box \<open>(0, 0, 4, 4)\<close> a feature at
  \<open>(2, 2)\<close> lies in all four quadrants, and when it is one of more than \<open>max_per_node\<close>
  features, so that the root subdivides, each of the four quadrants gets a child that
  holds and counts this feature.
\<close>

theorem boundary_duplication:
  assumes "f \<in> set feats" and "lon f = 2" and "lat f = 2"
    and "\<not> int (length feats) \<le> max_per_node"
  shows "(contains_feature b g \<longleftrightarrow>
            south b \<le> lat g \<and> lat g \<le> north b \<and> west b \<le> lon g \<and> lon g \<le> east b)
    \<and> (contains_feature b g \<and> lat g = (south b + north b) / 2 \<longrightarrow>
          (contains_feature (subdivide_into_quadrants b ! 0) g
             \<longleftrightarrow> contains_feature (subdivide_into_quadrants b ! 2) g)
          \<and> (contains_feature (subdivide_into_quadrants b ! 1) g
             \<longleftrightarrow> contains_feature (subdivide_into_quadrants b ! 3) g))
    \<and> (contains_feature b g \<and> lon g = (west b + east b) / 2 \<longrightarrow>
          (contains_feature (subdivide_into_quadrants b ! 0) g
             \<longleftrightarrow> contains_feature (subdivide_into_quadrants b ! 1) g)
          \<and> (contains_feature (subdivide_into_quadrants b ! 2) g
             \<longleftrightarrow> contains_feature (subdivide_into_quadrants b ! 3) g))
    \<and> (\<forall>q\<in>set (subdivide_into_quadrants box_0_4). contains_feature q f)
    \<and> map bbox (children (build_quadtree_for_category feats box_0_4 max_per_node))
          = subdivide_into_quadrants box_0_4
    \<and> (\<forall>c\<in>set (children (build_quadtree_for_category feats box_0_4 max_per_node)).
          f \<in> set (leaf_features c) \<and> 1 \<le> poiCount c)"
proof -
  have inside: "\<forall>q\<in>set (subdivide_into_quadrants box_0_4). contains_feature q f"
    using assms(2,3) by (simp add: subdivide_into_quadrants_def contains_feature_def box_0_4_def Let_def)
  then have ne: "\<forall>q\<in>set (subdivide_into_quadrants box_0_4). filter (contains_feature q) feats \<noteq> []"
    using assms(1) by (auto simp: filter_empty_conv)
  have split: "\<not> (MAX_DEPTH \<le> 0 \<or> int (length feats) \<le> max_per_node)"
    using assms(4) by (simp add: MAX_DEPTH_def)
  have kids: "children (build_quadtree_for_category feats box_0_4 max_per_node)
      = map (\<lambda>q. build max_per_node (filter (contains_feature q) feats) q (0 + 1))
          (subdivide_into_quadrants box_0_4)"
    using split by (simp add: build_quadtree_for_category_def build_children_of build_children_all [OF ne])
  have boxes: "map bbox (children (build_quadtree_for_category feats box_0_4 max_per_node))
          = subdivide_into_quadrants box_0_4"
    by (simp add: kids comp_def build_bbox_of)
  have counted: "f \<in> set (leaf_features c) \<and> 1 \<le> poiCount c"
    if "c \<in> set (children (build_quadtree_for_category feats box_0_4 max_per_node))" for c
  proof -
    from that obtain q where q: "q \<in> set (subdivide_into_quadrants box_0_4)"
      "c = build max_per_node (filter (contains_feature q) feats) q (0 + 1)"
      unfolding kids by auto
    have "f \<in> set (leaf_features c)"
      using q inside assms(1) by (simp add: bucket_leaf_features)
    moreover have "0 < poiCount c"
      using q ne build_counted by blast
    ultimately show ?thesis by simp
  qed
  have edges: "(contains_feature b g \<and> lat g = (south b + north b) / 2 \<longrightarrow>
          (contains_feature (subdivide_into_quadrants b ! 0) g
             \<longleftrightarrow> contains_feature (subdivide_into_quadrants b ! 2) g)
          \<and> (contains_feature (subdivide_into_quadrants b ! 1) g
             \<longleftrightarrow> contains_feature (subdivide_into_quadrants b ! 3) g))
    \<and> (contains_feature b g \<and> lon g = (west b + east b) / 2 \<longrightarrow>
          (contains_feature (subdivide_into_quadrants b ! 0) g
             \<longleftrightarrow> contains_feature (subdivide_into_quadrants b ! 1) g)
          \<and> (contains_feature (subdivide_into_quadrants b ! 2) g
             \<longleftrightarrow> contains_feature (subdivide_into_quadrants b ! 3) g))"
    by (auto simp: subdivide_into_quadrants_def contains_feature_def Let_def)
  have incl: "contains_feature b g \<longleftrightarrow>
            south b \<le> lat g \<and> lat g \<le> north b \<and> west b \<le> lon g \<and> lon g \<le> east b"
    by (simp add: contains_feature_def)
  from incl edges inside boxes counted show ?thesis
    by blast
qed

theorem boundary_duplication_witness:
  "point 2 2 \<in> set [point 2 2] \<and> lon (point 2 2) = 2 \<and> lat (point 2 2) = 2
   \<and> \<not> int (length [point 2 2]) \<le> 0
   \<and> list_all (\<lambda>q. contains_feature q (point 2 2)) (subdivide_into_quadrants box_0_4)
   \<and> map bbox (children (build_quadtree_for_category [point 2 2] box_0_4 0))
        = subdivide_into_quadrants box_0_4
   \<and> list_all (\<lambda>c. point 2 2 \<in> set (leaf_features c) \<and> 1 \<le> poiCount c)
        (children (build_quadtree_for_category [point 2 2] box_0_4 0))
   \<and> length (children (build_quadtree_for_category [point 2 2] box_0_4 0)) = 4
   \<and> poiCount (build_quadtree_for_category [point 2 2] box_0_4 0) = 4"
proof -
  have h: "point 2 2 \<in> set [point 2 2]" "lon (point 2 2) = 2" "lat (point 2 2) = 2"
    "\<not> int (length [point 2 2]) \<le> 0"
    by (simp_all add: point_def)
  have four: "length (children (build_quadtree_for_category [point 2 2] box_0_4 0)) = 4"
    "poiCount (build_quadtree_for_category [point 2 2] box_0_4 0) = 4"
    by (simp_all add: evaluate)
  from boundary_duplication [OF h, of box_0_4 "point 2 2"] h four show ?thesis
    unfolding list_all_iff by blast
qed

section \<open>Features outside of the box\<close>

text \<open>
  With \<open>max_per_node = 1\<close>, the features \<open>(5, 5)\<close> and \<open>(6, 6)\<close> and the box
  \<open>(0, 0, 4, 4)\<close> the termination test fails, so the node subdivides; both features lie
  outside of the box, yet the node keeps them and counts them.
\<close>

theorem no_containment_filter_counterexample:
  "\<not> (MAX_DEPTH \<le> 0 \<or> int (length [point 5 5, point 6 6]) \<le> 1)
   \<and> \<not> contains_feature box_0_4 (point 5 5)
   \<and> point 5 5 \<in> set (leaf_features (build_quadtree_for_category [point 5 5, point 6 6] box_0_4 1))
   \<and> poiCount (build_quadtree_for_category [point 5 5, point 6 6] box_0_4 1) = 2"
  by (intro conjI)
     (simp add: MAX_DEPTH_def, simp add: contains_feature_def box_0_4_def point_def,
      simp_all add: outside_points)

text \<open>
  C9, as the code has it: \<open>_build\<close> never filters the features of a node by its box.
  When the termination test makes the node a leaf, the node holds and counts every
  feature supplied. When the test fails and some feature lies in the box, a feature
  outside of the box falls in no bucket, is held by no child and by no leaf, and the
  counts are the numbers of features held by the leaves. When the test fails and no
  feature lies in the box, no child is made and the node stays a leaf that holds and
  counts every feature supplied.
\<close>

theorem no_containment_filter:
  "(MAX_DEPTH \<le> d \<or> int (length fs) \<le> m \<longrightarrow>
      is_leaf (build m fs b d) \<and> data (build m fs b d) = fs
      \<and> poiCount (build m fs b d) = int (length fs))
   \<and> (\<not> (MAX_DEPTH \<le> d \<or> int (length fs) \<le> m) \<and> (\<exists>g\<in>set fs. contains_feature b g)
        \<and> f \<in> set fs \<and> \<not> contains_feature b f \<longrightarrow>
      (\<forall>q\<in>set (subdivide_into_quadrants b). f \<notin> set (filter (contains_feature q) fs))
      \<and> \<not> is_leaf (build m fs b d) \<and> data (build m fs b d) = []
      \<and> (\<forall>c\<in>set (children (build m fs b d)).
            f \<notin> set (leaf_features c) \<and> poiCount c = int (length (leaf_features c)))
      \<and> f \<notin> set (leaf_features (build m fs b d))
      \<and> poiCount (build m fs b d) = int (length (leaf_features (build m fs b d))))
   \<and> (\<not> (MAX_DEPTH \<le> d \<or> int (length fs) \<le> m) \<and> (\<forall>g\<in>set fs. \<not> contains_feature b g) \<longrightarrow>
      is_leaf (build m fs b d) \<and> data (build m fs b d) = fs
      \<and> poiCount (build m fs b d) = int (length fs))"
proof -
  have leaf: "is_leaf (build m fs b d) \<and> data (build m fs b d) = fs
      \<and> poiCount (build m fs b d) = int (length fs)"
    if "MAX_DEPTH \<le> d \<or> int (length fs) \<le> m"
    using that by (simp add: build_leaf is_leaf_def)
  have stays: "is_leaf (build m fs b d) \<and> data (build m fs b d) = fs
      \<and> poiCount (build m fs b d) = int (length fs)"
    if "\<not> (MAX_DEPTH \<le> d \<or> int (length fs) \<le> m) \<and> (\<forall>g\<in>set fs. \<not> contains_feature b g)"
    using that by (simp add: build_stays_leaf is_leaf_def)
  have dropped: "(\<forall>q\<in>set (subdivide_into_quadrants b). f \<notin> set (filter (contains_feature q) fs))
      \<and> \<not> is_leaf (build m fs b d) \<and> data (build m fs b d) = []
      \<and> (\<forall>c\<in>set (children (build m fs b d)).
            f \<notin> set (leaf_features c) \<and> poiCount c = int (length (leaf_features c)))
      \<and> f \<notin> set (leaf_features (build m fs b d))
      \<and> poiCount (build m fs b d) = int (length (leaf_features (build m fs b d)))"
    if a: "\<not> (MAX_DEPTH \<le> d \<or> int (length fs) \<le> m) \<and> (\<exists>g\<in>set fs. contains_feature b g)
        \<and> f \<in> set fs \<and> \<not> contains_feature b f"
  proof -
    from a have internal: "children (build m fs b d) \<noteq> []"
      by (simp add: build_is_leaf)
    have out: "\<forall>q\<in>set (subdivide_into_quadrants b). \<not> contains_feature q f"
      using a quadrant_sub by blast
    have kids: "\<forall>c\<in>set (children (build m fs b d)).
              f \<notin> set (leaf_features c) \<and> poiCount c = int (length (leaf_features c))"
    proof
      fix c assume "c \<in> set (children (build m fs b d))"
      with a have "c \<in> set (build_children m fs b d)"
        by (simp add: build_children_of)
      then obtain q where q: "q \<in> set (subdivide_into_quadrants b)"
        "c = build m (filter (contains_feature q) fs) q (d + 1)"
        unfolding build_children_mem by blast
      with out show "f \<notin> set (leaf_features c) \<and> poiCount c = int (length (leaf_features c))"
        by (simp add: bucket_leaf_features build_count [symmetric])
    qed
    have "f \<notin> set (leaf_features (build m fs b d))"
      using a internal by (simp add: build_leaf_features_set)
    with internal out kids show ?thesis
      by (simp add: is_leaf_def build_data_of build_count [symmetric])
  qed
  from leaf stays dropped show ?thesis
    by blast
qed

theorem no_containment_filter_witness:
  "(int (length [point 1 1, point 5 5]) \<le> MAX_PER_NODE
    \<and> poiCount (build MAX_PER_NODE [point 1 1, point 5 5] box_0_4 0)
        = int (length [point 1 1, point 5 5]))
   \<and> (\<not> (MAX_DEPTH \<le> 0 \<or> int (length [point 1 1, point 5 5]) \<le> 1)
      \<and> (\<exists>g\<in>set [point 1 1, point 5 5]. contains_feature box_0_4 g)
      \<and> point 5 5 \<in> set [point 1 1, point 5 5] \<and> \<not> contains_feature box_0_4 (point 5 5)
      \<and> point 5 5 \<notin> set (leaf_features (build 1 [point 1 1, point 5 5] box_0_4 0))
      \<and> poiCount (build 1 [point 1 1, point 5 5] box_0_4 0) = 1)
   \<and> (\<not> (MAX_DEPTH \<le> 0 \<or> int (length [point 5 5, point 6 6]) \<le> 1)
      \<and> \<not> contains_feature box_0_4 (point 5 5) \<and> \<not> contains_feature box_0_4 (point 6 6)
      \<and> poiCount (build 1 [point 5 5, point 6 6] box_0_4 0) = int (length [point 5 5, point 6 6]))"
proof -
  have h1: "int (length [point 1 1, point 5 5]) \<le> MAX_PER_NODE"
    by (simp add: MAX_PER_NODE_def)
  have h2: "\<not> (MAX_DEPTH \<le> 0 \<or> int (length [point 1 1, point 5 5]) \<le> 1)
      \<and> (\<exists>g\<in>set [point 1 1, point 5 5]. contains_feature box_0_4 g)
      \<and> point 5 5 \<in> set [point 1 1, point 5 5] \<and> \<not> contains_feature box_0_4 (point 5 5)"
    by (simp add: MAX_DEPTH_def contains_feature_def box_0_4_def point_def)
  have h3: "\<not> (MAX_DEPTH \<le> 0 \<or> int (length [point 5 5, point 6 6]) \<le> 1)
      \<and> (\<forall>g\<in>set [point 5 5, point 6 6]. \<not> contains_feature box_0_4 g)"
    by (simp add: MAX_DEPTH_def contains_feature_def box_0_4_def point_def)
  have e: "poiCount (build 1 [point 1 1, point 5 5] box_0_4 0) = 1"
    by (simp add: inside_and_outside)
  from no_containment_filter [of 0 "[point 1 1, point 5 5]" MAX_PER_NODE box_0_4 "point 5 5"] h1
  have 1: "poiCount (build MAX_PER_NODE [point 1 1, point 5 5] box_0_4 0)
        = int (length [point 1 1, point 5 5])"
    by blast
  from no_containment_filter [of 0 "[point 1 1, point 5 5]" 1 box_0_4 "point 5 5"] h2
  have 2: "point 5 5 \<notin> set (leaf_features (build 1 [point 1 1, point 5 5] box_0_4 0))"
    by blast
  from no_containment_filter [of 0 "[point 5 5, point 6 6]" 1 box_0_4 "point 5 5"] h3
  have 3: "poiCount (build 1 [point 5 5, point 6 6] box_0_4 0) = int (length [point 5 5, point 6 6])"
    by blast
  from h1 h2 h3 e 1 2 3 show ?thesis
    by simp
qed

end
